theory Spec2Isabelle
  imports Main "HOL-Library.AList" "HOL-Library.Char_ord" "HOL-Library.List_Lexorder"
begin

text \<open>
  A shallow embedding of \<open>cleanlist.py\<close>: the projection of an uploaded table onto the
  target schema (\<open>process_data\<close>), the per-row e-mail verification and filter
  (\<open>verify_emails\<close>), the interactive column mapping with its templates
  (\<open>render_column_mapping\<close>, \<open>render_sidebar\<close>) and the start action and download of
  \<open>main\<close>. Tables follow the behaviour of the data-frame library the program uses;
  exceptions are values of \<open>py_error\<close>; the verification service and the user's choices
  are parameters.
\<close>

section \<open>Values, tables and mappings\<close>

text \<open>
  Python values as they occur in cells of a table and in decoded JSON. \<open>PyNone\<close> stands
  for both \<open>None\<close> and the missing-value marker of a table cell.
\<close>

datatype pyval =
    PyNone
  | PyBool bool
  | PyInt int
  | PyStr string
  | PyList "pyval list"
  | PyDict "(string \<times> pyval) list"

datatype py_error =
    KeyError string | TypeError | ValueError | AttributeError | JSONDecodeError | RequestException

text \<open>
  A table is its row labels (\<open>index\<close>) and its columns in order, each a name with one
  value per row label. A column taken out of a table keeps the table's row labels.
\<close>

record frame =
  index :: "nat list"
  columns :: "(string \<times> pyval list) list"

record series =
  s_index :: "nat list"
  s_values :: "pyval list"

definition empty_frame :: frame where
  "empty_frame = \<lparr>index = [], columns = []\<rparr>"

definition wf_frame :: "frame \<Rightarrow> bool" where
  "wf_frame df \<longleftrightarrow>
     distinct (map fst (columns df)) \<and>
     list_all (\<lambda>c. length (snd c) = length (index df)) (columns df)"

text \<open>
  The mapping dictionary: target field to source column name, or \<open>None\<close>.
  \<open>mappings.get(target)\<close> is \<open>None\<close> for an absent key and for a key bound to \<open>None\<close>.
\<close>

type_synonym mapping = "(string \<times> string option) list"

definition mappings_get :: "mapping \<Rightarrow> string \<Rightarrow> string option" where
  "mappings_get m t = (case map_of m t of None \<Rightarrow> None | Some v \<Rightarrow> v)"

text \<open>Python truthiness of such a value: \<open>None\<close> and the empty string are false.\<close>

definition truthy :: "string option \<Rightarrow> bool" where
  "truthy v = (case v of None \<Rightarrow> False | Some s \<Rightarrow> s \<noteq> [])"

section \<open>Transformer: \<open>process_data\<close>\<close>

text \<open>\<open>df[source]\<close>: the column as a series, \<open>KeyError\<close> when there is no such column.\<close>

definition getitem :: "frame \<Rightarrow> string \<Rightarrow> py_error + series" where
  "getitem df name =
     (case map_of (columns df) name of
        None \<Rightarrow> Inl (KeyError name)
      | Some vs \<Rightarrow> Inr \<lparr>s_index = index df, s_values = vs\<rparr>)"

text \<open>
  \<open>processed[target] = None\<close>: the scalar is broadcast over the current row labels; an
  existing column of that name is replaced in place, a new one is appended.
\<close>

definition set_none :: "frame \<Rightarrow> string \<Rightarrow> frame" where
  "set_none f name =
     f\<lparr>columns := AList.update name (replicate (length (index f)) PyNone) (columns f)\<rparr>"

text \<open>
  \<open>processed[target] = series\<close>. A table without row labels that receives a non-empty
  series first takes the series' row labels, its existing columns being filled with
  missing values. The series is then aligned on the table's row labels: taken as it is when
  the labels agree, looked up label by label otherwise.
\<close>

definition ensure_valid_index :: "frame \<Rightarrow> series \<Rightarrow> frame" where
  "ensure_valid_index f s =
     (if index f = [] \<and> 0 < length (s_index s)
      then \<lparr>index = s_index s,
            columns = map (\<lambda>(n, c). (n, replicate (length (s_index s)) PyNone)) (columns f)\<rparr>
      else f)"

definition reindex_for_setitem :: "series \<Rightarrow> nat list \<Rightarrow> pyval list" where
  "reindex_for_setitem s idx =
     (if s_index s = idx \<or> idx = [] then s_values s
      else map (\<lambda>l. case map_of (zip (s_index s) (s_values s)) l of
                       None \<Rightarrow> PyNone | Some v \<Rightarrow> v) idx)"

definition set_series :: "frame \<Rightarrow> string \<Rightarrow> series \<Rightarrow> frame" where
  "set_series f name s =
     (let f1 = ensure_valid_index f s
      in f1\<lparr>columns := AList.update name (reindex_for_setitem s (index f1)) (columns f1)\<rparr>)"

text \<open>The loop of \<open>process_data\<close> over the target columns, \<open>processed\<close> being the accumulator.\<close>

fun process_loop :: "frame \<Rightarrow> mapping \<Rightarrow> string list \<Rightarrow> frame \<Rightarrow> py_error + frame" where
  "process_loop df m [] processed = Inr processed"
| "process_loop df m (target # rest) processed =
     (let source = mappings_get m target
      in if truthy source
         then (case getitem df (the source) of
                 Inl e \<Rightarrow> Inl e
               | Inr s \<Rightarrow> process_loop df m rest (set_series processed target s))
         else process_loop df m rest (set_none processed target))"

definition process_data :: "frame \<Rightarrow> mapping \<Rightarrow> string list \<Rightarrow> py_error + frame" where
  "process_data df m target_columns = process_loop df m target_columns empty_frame"

text \<open>
  Every column of a target field that the mapping leaves unmapped holds only missing values.
\<close>

definition null_cols :: "mapping \<Rightarrow> frame \<Rightarrow> bool" where
  "null_cols m f \<longleftrightarrow>
     (\<forall>t c. \<not> truthy (mappings_get m t) \<longrightarrow> map_of (columns f) t = Some c \<longrightarrow>
            c = replicate (length (index f)) PyNone)"

section \<open>Validator: \<open>verify_emails\<close>\<close>

text \<open>
  The verification service is outside the program. A call either raises (connection error,
  timeout) or returns a response with a status code and a body, which either decodes as
  JSON or does not. The service is a parameter: given the key, the address sent and the
  number of the call, it says what that call does.
\<close>

datatype response = Response (status_code: nat) (json_body: "pyval option")

type_synonym service = "string \<Rightarrow> pyval \<Rightarrow> nat \<Rightarrow> py_error + response"

text \<open>\<open>res.json()\<close> raises on a body that is not JSON; the status code is not looked at.\<close>

definition response_json :: "response \<Rightarrow> py_error + pyval" where
  "response_json res = (case json_body res of None \<Rightarrow> Inl JSONDecodeError | Some v \<Rightarrow> Inr v)"

text \<open>\<open>obj.get(key, default)\<close>: only a dictionary has the method.\<close>

fun py_get :: "pyval \<Rightarrow> string \<Rightarrow> pyval \<Rightarrow> py_error + pyval" where
  "py_get (PyDict d) k dflt = Inr (case map_of d k of None \<Rightarrow> dflt | Some v \<Rightarrow> v)"
| "py_get v k dflt = Inl AttributeError"

text \<open>
  The body of the loop: the \<open>try\<close> block computes a status or raises, and the
  \<open>except Exception\<close> branch turns every exception into the status \<open>'error'\<close>.
\<close>

definition try_check :: "py_error + response \<Rightarrow> py_error + pyval" where
  "try_check r =
     (case r of
        Inl e \<Rightarrow> Inl e
      | Inr res \<Rightarrow>
          (case response_json res of
             Inl e \<Rightarrow> Inl e
           | Inr j \<Rightarrow> py_get j ''result'' (PyStr ''invalid'')))"

definition check_one :: "py_error + response \<Rightarrow> pyval" where
  "check_one r = (case try_check r of Inl e \<Rightarrow> PyStr ''error'' | Inr v \<Rightarrow> v)"

fun status_loop :: "service \<Rightarrow> string \<Rightarrow> nat \<Rightarrow> pyval list \<Rightarrow> pyval list" where
  "status_loop post api_key i [] = []"
| "status_loop post api_key i (email # rest) =
     check_one (post api_key email i) # status_loop post api_key (Suc i) rest"

text \<open>
  \<open>df[name] = list\<close>: the list must have one value per row label, otherwise
  \<open>ValueError\<close>.
\<close>

definition set_list :: "frame \<Rightarrow> string \<Rightarrow> pyval list \<Rightarrow> py_error + frame" where
  "set_list f name vs =
     (if length vs = length (index f)
      then Inr (f\<lparr>columns := AList.update name vs (columns f)\<rparr>)
      else Inl ValueError)"

text \<open>\<open>df[mask]\<close>: the rows at which the boolean mask holds, in order.\<close>

definition mask_rows :: "bool list \<Rightarrow> 'a list \<Rightarrow> 'a list" where
  "mask_rows keep xs = map snd (filter fst (zip keep xs))"

definition getitem_mask :: "frame \<Rightarrow> bool list \<Rightarrow> frame" where
  "getitem_mask f keep =
     \<lparr>index = mask_rows keep (index f),
      columns = map (\<lambda>(n, c). (n, mask_rows keep c)) (columns f)\<rparr>"

text \<open>
  \<open>verify_emails\<close> assigns a column to the table it is given, so the caller's table changes.
  The result is the pair of the caller's table after the call and the table returned.
\<close>

definition verify_emails :: "frame \<Rightarrow> string \<Rightarrow> service \<Rightarrow> py_error + frame \<times> frame" where
  "verify_emails df api_key post =
     (if ''Email'' \<notin> set (map fst (columns df)) then Inr (df, df)
      else
        (case getitem df ''Email'' of
           Inl e \<Rightarrow> Inl e
         | Inr emails \<Rightarrow>
             (let status_col = status_loop post api_key 0 (s_values emails)
              in case set_list df ''Email Status'' status_col of
                   Inl e \<Rightarrow> Inl e
                 | Inr df' \<Rightarrow>
                     (case getitem df' ''Email Status'' of
                        Inl e \<Rightarrow> Inl e
                      | Inr st \<Rightarrow>
                          Inr (df', getitem_mask df'
                                      (map (\<lambda>v. v = PyStr ''valid'') (s_values st)))))))"

text \<open>The rows of a table: each row label with the row's cells by column name.\<close>

definition row_at :: "frame \<Rightarrow> nat \<Rightarrow> nat \<times> (string \<times> pyval) list" where
  "row_at f i = (index f ! i, map (\<lambda>(n, c). (n, c ! i)) (columns f))"

definition rows :: "frame \<Rightarrow> (nat \<times> (string \<times> pyval) list) list" where
  "rows f = map (row_at f) [0..<length (index f)]"

definition outcome :: "nat \<times> (string \<times> pyval) list \<Rightarrow> pyval option" where
  "outcome r = map_of (snd r) ''Email Status''"

section \<open>Mapping state: \<open>render_column_mapping\<close> and template loading\<close>

definition ignore :: string where
  "ignore = ''--- Ignore ---''"

text \<open>
  \<open>used_sources\<close> as first computed: the values of the dictionary that are true and are not
  the ignore entry.
\<close>

definition used_sources_of :: "mapping \<Rightarrow> string list" where
  "used_sources_of m =
     map the (filter (\<lambda>v. truthy v \<and> v \<noteq> Some ignore) (map snd m))"

text \<open>\<open>list.index\<close>, used only for a member of the list.\<close>

fun index_of :: "'a list \<Rightarrow> 'a \<Rightarrow> nat" where
  "index_of [] x = 0"
| "index_of (y # ys) x = (if x = y then 0 else Suc (index_of ys x))"

definition default_index :: "string list \<Rightarrow> string option \<Rightarrow> nat" where
  "default_index source_options current_source =
     (case current_source of
        None \<Rightarrow> 0
      | Some c \<Rightarrow> if c \<in> set source_options then index_of source_options c else 0)"

text \<open>
  The select box returns one of its options: what the user picked when that is an option,
  the option at the default position otherwise. The user's picks are a parameter, one per
  target field (\<open>None\<close>: nothing picked).
\<close>

definition selectbox :: "string list \<Rightarrow> nat \<Rightarrow> string option \<Rightarrow> string" where
  "selectbox source_options idx pick =
     (case pick of
        None \<Rightarrow> source_options ! idx
      | Some p \<Rightarrow> if p \<in> set source_options then p else source_options ! idx)"

text \<open>
  One turn of the loop over the target columns, in two parts. First the select box of the
  target: its options are the ignore entry and, sorted, the columns that are not in
  \<open>used_sources\<close> or are the target's current source.
\<close>

definition select_source ::
  "string list \<Rightarrow> (string \<Rightarrow> string option) \<Rightarrow> string \<Rightarrow> mapping \<Rightarrow> string list \<Rightarrow> string"
  where
  "select_source cols picks target m used_sources =
     (let current_source = mappings_get m target;
          available_cols =
            filter (\<lambda>c. c \<notin> set used_sources \<or> Some c = current_source) cols;
          source_options = ignore # sort available_cols
      in selectbox source_options
           (default_index source_options current_source) (picks target))"

text \<open>Then the assignment of what was selected, the dictionary being updated in place.\<close>

definition assign_selected ::
  "string \<Rightarrow> string \<Rightarrow> mapping \<times> string list \<Rightarrow> mapping \<times> string list" where
  "assign_selected target selected st =
     (if selected \<noteq> ignore
      then (AList.update target (Some selected) (fst st),
            if selected \<notin> set (snd st) then snd st @ [selected] else snd st)
      else (AList.update target None (fst st), snd st))"

text \<open>
  The loop. The state is the dictionary and the list \<open>used_sources\<close>. \<open>clicked\<close> is the
  target whose clear button was pressed, if any; the button exists only for a mapped target,
  and pressing it clears the target and ends the run of the script.
\<close>

fun mapping_loop ::
  "string list \<Rightarrow> (string \<Rightarrow> string option) \<Rightarrow> string option \<Rightarrow> string list \<Rightarrow>
   mapping \<times> string list \<Rightarrow> mapping \<times> string list" where
  "mapping_loop cols picks clicked [] st = st"
| "mapping_loop cols picks clicked (target # rest) st =
     (let st1 = assign_selected target
                  (select_source cols picks target (fst st) (snd st)) st
      in if truthy (mappings_get (fst st1) target) \<and> clicked = Some target
         then (AList.update target None (fst st1), snd st1)
         else mapping_loop cols picks clicked rest st1)"

definition render_column_mapping ::
  "string list \<Rightarrow> string list \<Rightarrow> mapping \<Rightarrow> (string \<Rightarrow> string option) \<Rightarrow> string option \<Rightarrow> mapping"
  where
  "render_column_mapping cols target_columns m picks clicked =
     fst (mapping_loop cols picks clicked target_columns (m, used_sources_of m))"

text \<open>
  The session. The templates are read once, when the session starts. The active mapping is
  a dictionary of its own (\<open>{}\<close> at the start) until a template is loaded; loading binds it
  to the template's dictionary itself, so that later edits of the mapping are edits of that
  template's dictionary. \<open>processed_data\<close> is absent until a processing run has succeeded,
  and then holds the resulting table and the name of the file to download.
\<close>

datatype mappings_ref = Own mapping | Template string

record session =
  templates :: "(string \<times> mapping) list"
  mappings :: mappings_ref
  processed_data :: "(frame \<times> string) option"

definition session_mappings :: "session \<Rightarrow> mapping" where
  "session_mappings st =
     (case mappings st of
        Own m \<Rightarrow> m
      | Template n \<Rightarrow> (case map_of (templates st) n of None \<Rightarrow> [] | Some m \<Rightarrow> m))"

definition store_mappings :: "session \<Rightarrow> mapping \<Rightarrow> session" where
  "store_mappings st m =
     (case mappings st of
        Own old \<Rightarrow> st\<lparr>mappings := Own m\<rparr>
      | Template n \<Rightarrow> st\<lparr>templates := AList.update n m (templates st)\<rparr>)"

text \<open>
  What the user can do to the mapping: a run of the script showing the mapping interface for
  an upload with the given columns, with the user's picks and possibly a clear button
  pressed; loading a stored template. Saving and deleting a template touch files only.
\<close>

datatype ui_event =
    Render "string list" "string \<Rightarrow> string option" "string option"
  | Load string
  | Save string
  | Delete string

fun step :: "string list \<Rightarrow> session \<Rightarrow> ui_event \<Rightarrow> session" where
  "step target_columns st (Render cols picks clicked) =
     store_mappings st
       (render_column_mapping cols target_columns (session_mappings st) picks clicked)"
| "step target_columns st (Load n) =
     (if n \<in> set (map fst (templates st)) then st\<lparr>mappings := Template n\<rparr> else st)"
| "step target_columns st (Save n) = st"
| "step target_columns st (Delete n) = st"

definition run :: "string list \<Rightarrow> session \<Rightarrow> ui_event list \<Rightarrow> session" where
  "run target_columns st events = foldl (step target_columns) st events"

text \<open>
  The invariant: no source column, the ignore entry apart, is the value of two distinct
  target fields. A false value (\<open>None\<close>, the empty string) is no binding.
\<close>

definition unique_sources :: "mapping \<Rightarrow> bool" where
  "unique_sources m \<longleftrightarrow>
     (\<forall>t1 t2 s. map_of m t1 = Some (Some s) \<and> map_of m t2 = Some (Some s) \<and>
                s \<noteq> [] \<and> s \<noteq> ignore \<longrightarrow> t1 = t2)"

definition covered :: "mapping \<Rightarrow> string list \<Rightarrow> bool" where
  "covered m used \<longleftrightarrow>
     (\<forall>t s. map_of m t = Some (Some s) \<and> s \<noteq> [] \<and> s \<noteq> ignore \<longrightarrow> s \<in> set used)"

definition templates_ok :: "session \<Rightarrow> bool" where
  "templates_ok st \<longleftrightarrow> (\<forall>n m. map_of (templates st) n = Some m \<longrightarrow> unique_sources m)"

section \<open>Pipeline: the start action of \<open>main\<close> and the download\<close>

text \<open>
  Inside \<open>main\<close> the name \<open>verify_emails\<close> is assigned the value of the check box
  \<open>Verify Email Addresses\<close>, so throughout \<open>main\<close> it is that local variable, a truth
  value, and not the function of the same name. The call
  \<open>verify_emails(processed_df, api_key)\<close> therefore applies a truth value to arguments,
  which raises \<open>TypeError\<close>.
\<close>

definition call_local_verify_emails :: "bool \<Rightarrow> frame \<Rightarrow> string \<Rightarrow> py_error + frame" where
  "call_local_verify_emails verify_emails_local processed_df api_key = Inl TypeError"

text \<open>\<open>new_filename.rsplit('.', 1)[0] + "_clean.csv"\<close>\<close>

definition clean_filename :: "string \<Rightarrow> string" where
  "clean_filename new_filename =
     (if CHR ''.'' \<in> set new_filename
      then rev (tl (dropWhile (\<lambda>c. c \<noteq> CHR ''.'') (rev new_filename)))
      else new_filename) @ ''_clean.csv''"

text \<open>The body of the start button: an exception leaves it before the result is stored.\<close>

definition start_processing ::
  "session \<Rightarrow> frame \<Rightarrow> string list \<Rightarrow> string \<Rightarrow> bool \<Rightarrow> string \<Rightarrow> py_error + session" where
  "start_processing st df target_columns api_key verify_emails_local new_filename =
     (case process_data df (session_mappings st) target_columns of
        Inl e \<Rightarrow> Inl e
      | Inr processed_df \<Rightarrow>
          (case (if api_key \<noteq> [] \<and> verify_emails_local
                 then call_local_verify_emails verify_emails_local processed_df api_key
                 else Inr processed_df) of
             Inl e \<Rightarrow> Inl e
           | Inr processed_df' \<Rightarrow>
               Inr (st\<lparr>processed_data := Some (processed_df', clean_filename new_filename)\<rparr>)))"

text \<open>
  The \<open>except Exception\<close> branch of \<open>main\<close> shows the error and leaves the session as it
  was. The result is the session after the action and the error shown, if any.
\<close>

definition on_start ::
  "session \<Rightarrow> frame \<Rightarrow> string list \<Rightarrow> string \<Rightarrow> bool \<Rightarrow> string \<Rightarrow> session \<times> py_error option" where
  "on_start st df target_columns api_key verify_emails_local new_filename =
     (case start_processing st df target_columns api_key verify_emails_local new_filename of
        Inl e \<Rightarrow> (st, Some e)
      | Inr st' \<Rightarrow> (st', None))"















section \<open>Properties of the Transformer\<close>

lemma index_set_none: "index (set_none f n) = index f"
  by (simp add: set_none_def)

lemma index_set_series:
  "index (set_series f n s) = (if index f = [] \<and> s_index s \<noteq> [] then s_index s else index f)"
  by (simp add: set_series_def ensure_valid_index_def Let_def)

lemma getitem_index: "getitem df name = Inr s \<Longrightarrow> s_index s = index df"
  by (auto simp: getitem_def split: option.splits)

lemma getitem_Inr_iff: "(\<exists>s. getitem df name = Inr s) \<longleftrightarrow> name \<in> fst ` set (columns df)"
proof -
  have "(\<exists>s. getitem df name = Inr s) \<longleftrightarrow> name \<in> dom (map_of (columns df))"
    by (auto simp: getitem_def split: option.splits)
  then show ?thesis by (simp add: dom_map_of_conv_image_fst)
qed

lemma loop_index_same:
  "process_loop df m ts acc = Inr p \<Longrightarrow> index acc = index df \<Longrightarrow> index p = index df"
proof (induction ts arbitrary: acc)
  case Nil then show ?case by simp
next
  case (Cons t ts)
  then show ?case
    by (auto simp: Let_def index_set_none index_set_series split: if_splits sum.splits dest: getitem_index)
qed


lemma loop_index_mapped:
  "process_loop df m ts acc = Inr p \<Longrightarrow> index acc = [] \<Longrightarrow>
   \<exists>t\<in>set ts. truthy (mappings_get m t) \<Longrightarrow> index p = index df"
proof (induction ts arbitrary: acc)
  case Nil then show ?case by simp
next
  case (Cons t ts)
  show ?case
  proof (cases "truthy (mappings_get m t)")
    case True
    with Cons.prems obtain s where s: "getitem df (the (mappings_get m t)) = Inr s"
      and r: "process_loop df m ts (set_series acc t s) = Inr p"
      by (auto simp: Let_def split: sum.splits)
    have "index (set_series acc t s) = index df"
      using getitem_index[OF s] Cons.prems(2) by (simp add: index_set_series)
    then show ?thesis using loop_index_same[OF r] by simp
  next
    case False
    with Cons.prems have r: "process_loop df m ts (set_none acc t) = Inr p"
      and ex: "\<exists>t\<in>set ts. truthy (mappings_get m t)"
      by (auto simp: Let_def)
    show ?thesis using Cons.IH[OF r _ ex] Cons.prems(2) by (simp add: index_set_none)
  qed
qed

lemma loop_succeeds_iff:
  "(\<exists>p. process_loop df m ts acc = Inr p) \<longleftrightarrow>
   (\<forall>t\<in>set ts. truthy (mappings_get m t) \<longrightarrow> the (mappings_get m t) \<in> fst ` set (columns df))"
proof (induction ts arbitrary: acc)
  case Nil then show ?case by simp
next
  case (Cons t ts)
  show ?case
  proof (cases "truthy (mappings_get m t)")
    case True
    show ?thesis
    proof (cases "getitem df (the (mappings_get m t))")
      case (Inl e)
      then have "the (mappings_get m t) \<notin> fst ` set (columns df)"
        using getitem_Inr_iff[of df "the (mappings_get m t)"] by auto
      with True Inl show ?thesis by (simp add: Let_def)
    next
      case (Inr s)
      then have "the (mappings_get m t) \<in> fst ` set (columns df)"
        using getitem_Inr_iff[of df "the (mappings_get m t)"] by auto
      with True Inr show ?thesis using Cons.IH[of "set_series acc t s"] by (simp add: Let_def)
    qed
  next
    case False
    then show ?thesis using Cons.IH[of "set_none acc t"] by (simp add: Let_def)
  qed
qed

lemma null_cols_set_none:
  "null_cols m f \<Longrightarrow> null_cols m (set_none f n)"
  by (auto simp: null_cols_def set_none_def update_conv' split: if_splits)

lemma null_cols_ensure:
  "null_cols m f \<Longrightarrow> null_cols m (ensure_valid_index f s)"
  by (auto simp: null_cols_def ensure_valid_index_def map_of_map)

lemma null_cols_set_series:
  "null_cols m f \<Longrightarrow> truthy (mappings_get m n) \<Longrightarrow> null_cols m (set_series f n s)"
  using null_cols_ensure[of m f s]
  by (auto simp: null_cols_def set_series_def Let_def update_conv' split: if_splits)

lemma loop_null_cols:
  "process_loop df m ts acc = Inr p \<Longrightarrow> null_cols m acc \<Longrightarrow> null_cols m p"
proof (induction ts arbitrary: acc)
  case Nil then show ?case by simp
next
  case (Cons t ts)
  then show ?case
    by (auto simp: Let_def split: if_splits sum.splits
             intro: null_cols_set_none null_cols_set_series)
qed

lemma keys_ensure: "map fst (columns (ensure_valid_index f s)) = map fst (columns f)"
  by (auto simp: ensure_valid_index_def)

lemma names_set_none:
  "map fst (columns (set_none f n)) =
     (if n \<in> set (map fst (columns f)) then map fst (columns f) else map fst (columns f) @ [n])"
  by (simp add: set_none_def update_keys)

lemma names_set_series:
  "map fst (columns (set_series f n s)) =
     (if n \<in> set (map fst (columns f)) then map fst (columns f) else map fst (columns f) @ [n])"
  using keys_ensure[of f s] by (simp add: set_series_def Let_def update_keys)


lemma loop_keys_grow:
  "process_loop df m ts acc = Inr p \<Longrightarrow>
   set ts \<union> set (map fst (columns acc)) \<subseteq> set (map fst (columns p))"
proof (induction ts arbitrary: acc)
  case Nil then show ?case by simp
next
  case (Cons t ts)
  show ?case
  proof (cases "truthy (mappings_get m t)")
    case True
    with Cons.prems obtain s where
      r: "process_loop df m ts (set_series acc t s) = Inr p"
      by (auto simp: Let_def split: sum.splits)
    from Cons.IH[OF r] show ?thesis by (auto simp: names_set_series split: if_splits)
  next
    case False
    with Cons.prems have r: "process_loop df m ts (set_none acc t) = Inr p"
      by (auto simp: Let_def)
    from Cons.IH[OF r] show ?thesis by (auto simp: names_set_none split: if_splits)
  qed
qed

lemma loop_error_is_KeyError:
  "process_loop df m ts acc = Inl e \<Longrightarrow> \<exists>n. e = KeyError n \<and> n \<notin> fst ` set (columns df)"
proof (induction ts arbitrary: acc)
  case Nil then show ?case by simp
next
  case (Cons t ts)
  then show ?case
    by (auto simp: Let_def getitem_def map_of_eq_None_iff split: if_splits sum.splits option.splits)
qed

lemma null_cols_empty: "null_cols m empty_frame"
  by (simp add: null_cols_def empty_frame_def)

text \<open>
  The empty schema is not an error: the projection returns the empty table. A non-empty
  schema can fail, with \<open>KeyError\<close>, when a field is mapped to a name that is no column
  of the source table.
\<close>

theorem process_data_no_schema_error_counterexample:
  "process_data \<lparr>index = [0, 1], columns = [(''E-mail'', [PyStr ''a@x.org'', PyStr ''b@x.org''])]\<rparr>
       [(''Email'', Some ''E-mail'')] [] = Inr empty_frame
   \<and> process_data \<lparr>index = [0, 1], columns = [(''E-mail'', [PyStr ''a@x.org'', PyStr ''b@x.org''])]\<rparr>
       [(''Email'', Some ''Mail'')] [''Email''] = Inl (KeyError ''Mail'')"
  by (simp add: process_data_def mappings_get_def truthy_def getitem_def)

text \<open>
  Claim C4, as amended. The projection never fails with a schema error: for the empty
  schema it returns the empty table. It fails exactly when some schema field is mapped to a
  name that is not a column of the source table, and then with \<open>KeyError\<close> on such a name.
  Whenever it succeeds, each unmapped target field is a column holding only missing values.
\<close>

theorem process_data_failure:
  "process_data df m [] = Inr empty_frame
   \<and> ((\<exists>e. process_data df m ts = Inl e) \<longleftrightarrow>
        (\<exists>t\<in>set ts. truthy (mappings_get m t) \<and>
                     the (mappings_get m t) \<notin> fst ` set (columns df)))
   \<and> (\<forall>e. process_data df m ts = Inl e \<longrightarrow> (\<exists>n. e = KeyError n \<and> n \<notin> fst ` set (columns df)))
   \<and> (\<forall>p t. process_data df m ts = Inr p \<longrightarrow> t \<in> set ts \<longrightarrow> \<not> truthy (mappings_get m t) \<longrightarrow>
          map_of (columns p) t = Some (replicate (length (index p)) PyNone))"
proof (intro conjI allI impI)
  show "process_data df m [] = Inr empty_frame"
    by (simp add: process_data_def)
next
  have "(\<exists>e. process_data df m ts = Inl e) \<longleftrightarrow> \<not> (\<exists>p. process_data df m ts = Inr p)"
    by (cases "process_data df m ts") auto
  then show "(\<exists>e. process_data df m ts = Inl e) \<longleftrightarrow>
        (\<exists>t\<in>set ts. truthy (mappings_get m t) \<and>
                     the (mappings_get m t) \<notin> fst ` set (columns df))"
    unfolding process_data_def loop_succeeds_iff by blast
next
  fix e assume "process_data df m ts = Inl e"
  then show "\<exists>n. e = KeyError n \<and> n \<notin> fst ` set (columns df)"
    unfolding process_data_def by (rule loop_error_is_KeyError)
next
  fix p t
  assume r: "process_data df m ts = Inr p" and t: "t \<in> set ts"
    and u: "\<not> truthy (mappings_get m t)"
  from r have n: "null_cols m p"
    unfolding process_data_def by (rule loop_null_cols) (rule null_cols_empty)
  from r t have "t \<in> set (map fst (columns p))"
    unfolding process_data_def using loop_keys_grow by blast
  then obtain c where c: "map_of (columns p) t = Some c"
    by (metis domD dom_map_of_conv_image_fst set_map)
  with n u show "map_of (columns p) t = Some (replicate (length (index p)) PyNone)"
    by (simp add: null_cols_def)
qed

theorem process_data_failure_witness:
  "process_data \<lparr>index = [0, 1], columns = [(''E-mail'', [PyStr ''a@x.org'', PyStr ''b@x.org''])]\<rparr>
       [(''Email'', Some ''E-mail'')] [''Email'', ''Name'']
     = Inr \<lparr>index = [0, 1],
            columns = [(''Email'', [PyStr ''a@x.org'', PyStr ''b@x.org'']),
                       (''Name'', [PyNone, PyNone])]\<rparr>
   \<and> map_of [(''Email'', [PyStr ''a@x.org'', PyStr ''b@x.org'']), (''Name'', [PyNone, PyNone])] ''Name''
       = Some (replicate (length [0::nat, 1]) PyNone)
   \<and> \<not> (\<exists>e. process_data \<lparr>index = [0, 1], columns = [(''E-mail'', [PyStr ''a@x.org'', PyStr ''b@x.org''])]\<rparr>
       [(''Email'', Some ''E-mail'')] [''Email'', ''Name''] = Inl e)"
proof -
  let ?df = "\<lparr>index = [0, 1], columns = [(''E-mail'', [PyStr ''a@x.org'', PyStr ''b@x.org''])]\<rparr>"
  let ?m = "[(''Email'', Some ''E-mail'')]"
  let ?p = "\<lparr>index = [0, 1],
            columns = [(''Email'', [PyStr ''a@x.org'', PyStr ''b@x.org'']),
                       (''Name'', [PyNone, PyNone])]\<rparr>"
  have r: "process_data ?df ?m [''Email'', ''Name''] = Inr ?p"
    by (simp add: process_data_def mappings_get_def truthy_def getitem_def set_series_def
          set_none_def ensure_valid_index_def reindex_for_setitem_def empty_frame_def Let_def)
  have u: "\<not> truthy (mappings_get ?m ''Name'')"
    by (simp add: mappings_get_def truthy_def)
  from process_data_failure[of ?df ?m "[''Email'', ''Name'']"] r u
  show ?thesis by (simp add: mappings_get_def truthy_def)
qed

text \<open>
  With no schema field mapped, the projection of a table of three rows has no rows.
\<close>

theorem process_data_row_count_counterexample:
  "process_data \<lparr>index = [0, 1, 2],
                 columns = [(''E-mail'', [PyStr ''a@x.org'', PyStr ''b@x.org'', PyStr ''c@x.org''])]\<rparr>
       [] [''Email''] = Inr \<lparr>index = [], columns = [(''Email'', [])]\<rparr>"
  by (simp add: process_data_def mappings_get_def truthy_def set_none_def empty_frame_def)

text \<open>
  Claim C5, as amended. Whenever at least one schema field is mapped to a source column, the
  projected table has the row labels of the source table, hence exactly as many rows.
\<close>

theorem process_data_row_count:
  assumes "process_data df m ts = Inr p"
    and "\<exists>t\<in>set ts. truthy (mappings_get m t)"
  shows "index p = index df \<and> length (index p) = length (index df)"
  using loop_index_mapped[OF assms(1)[unfolded process_data_def] _ assms(2)]
  by (simp add: empty_frame_def)

theorem process_data_row_count_witness:
  "process_data \<lparr>index = [0, 1], columns = [(''E-mail'', [PyStr ''a@x.org'', PyStr ''b@x.org''])]\<rparr>
       [(''Email'', Some ''E-mail'')] [''Name'', ''Email'']
     = Inr \<lparr>index = [0, 1],
            columns = [(''Name'', [PyNone, PyNone]),
                       (''Email'', [PyStr ''a@x.org'', PyStr ''b@x.org''])]\<rparr>
   \<and> length (index \<lparr>index = [0, 1],
            columns = [(''Name'', [PyNone, PyNone]),
                       (''Email'', [PyStr ''a@x.org'', PyStr ''b@x.org''])]\<rparr>) = length [0::nat, 1]"
proof -
  let ?df = "\<lparr>index = [0, 1], columns = [(''E-mail'', [PyStr ''a@x.org'', PyStr ''b@x.org''])]\<rparr>"
  let ?m = "[(''Email'', Some ''E-mail'')]"
  let ?p = "\<lparr>index = [0, 1],
            columns = [(''Name'', [PyNone, PyNone]),
                       (''Email'', [PyStr ''a@x.org'', PyStr ''b@x.org''])]\<rparr>"
  have r: "process_data ?df ?m [''Name'', ''Email''] = Inr ?p"
    by (simp add: process_data_def mappings_get_def truthy_def getitem_def set_series_def
          set_none_def ensure_valid_index_def reindex_for_setitem_def empty_frame_def Let_def)
  have e: "\<exists>t\<in>set [''Name'', ''Email'']. truthy (mappings_get ?m t)"
    by (simp add: mappings_get_def truthy_def)
  from process_data_row_count[OF r e] r show ?thesis by simp
qed

section \<open>Properties of the Validator\<close>

lemma length_status_loop: "length (status_loop post k i es) = length es"
  by (induction es arbitrary: i) auto

lemma nth_status_loop:
  "j < length es \<Longrightarrow> status_loop post k i es ! j = check_one (post k (es ! j) (i + j))"
proof (induction es arbitrary: i j)
  case Nil then show ?case by simp
next
  case (Cons e es)
  then show ?case by (cases j) auto
qed

lemma upt_0_Suc: "[0..<Suc n] = 0 # map Suc [0..<n]"
  by (simp add: upt_conv_Cons map_Suc_upt del: upt_Suc)

lemma mask_rows_nth:
  "length keep = length xs \<Longrightarrow>
   mask_rows keep xs = map (nth xs) (filter (nth keep) [0..<length xs])"
proof (induction xs arbitrary: keep)
  case Nil then show ?case by (simp add: mask_rows_def)
next
  case (Cons x xs)
  then obtain b bs where k: "keep = b # bs" and l: "length bs = length xs"
    by (cases keep) auto
  have "mask_rows bs xs = map (nth xs) (filter (nth bs) [0..<length xs])"
    using Cons.IH[OF l] .
  then show ?case
    unfolding k by (simp add: mask_rows_def upt_0_Suc filter_map o_def del: upt_Suc)
qed

lemma wf_column_length:
  "wf_frame f \<Longrightarrow> map_of (columns f) n = Some c \<Longrightarrow> length c = length (index f)"
  by (auto simp: wf_frame_def list_all_iff dest!: map_of_SomeD)

lemma wf_set_column_length:
  "wf_frame f \<Longrightarrow> (n, c) \<in> set (columns f) \<Longrightarrow> length c = length (index f)"
  by (auto simp: wf_frame_def list_all_iff)

lemma list_all_update:
  "list_all P al \<Longrightarrow> P (n, vs) \<Longrightarrow> list_all P (AList.update n vs al)"
  by (induction al) auto

lemma wf_update:
  assumes "wf_frame f" "length vs = length (index f)"
  shows "wf_frame (f\<lparr>columns := AList.update n vs (columns f)\<rparr>)"
  using assms by (simp add: wf_frame_def distinct_update list_all_update)

lemma verify_emails_result:
  assumes wf: "wf_frame df" and e: "map_of (columns df) ''Email'' = Some emails"
  shows "verify_emails df key post =
           Inr (df\<lparr>columns := AList.update ''Email Status'' (status_loop post key 0 emails) (columns df)\<rparr>,
                getitem_mask
                  (df\<lparr>columns := AList.update ''Email Status'' (status_loop post key 0 emails) (columns df)\<rparr>)
                  (map (\<lambda>v. v = PyStr ''valid'') (status_loop post key 0 emails)))"
proof -
  have m: "''Email'' \<in> set (map fst (columns df))"
    using e by (metis domI dom_map_of_conv_image_fst set_map)
  have l: "length (status_loop post key 0 emails) = length (index df)"
    using wf_column_length[OF wf e] by (simp add: length_status_loop)
  show ?thesis
    using m e l by (simp add: verify_emails_def getitem_def set_list_def update_conv' Let_def)
qed

lemma rows_getitem_mask:
  assumes wf: "wf_frame f" and l: "length keep = length (index f)"
  shows "rows (getitem_mask f keep) = map (row_at f) (filter (nth keep) [0..<length (index f)])"
proof -
  let ?K = "filter (nth keep) [0..<length (index f)]"
  have i: "mask_rows keep (index f) = map (nth (index f)) ?K"
    using l by (simp add: mask_rows_nth)
  have c: "map (\<lambda>(n, c). (n, mask_rows keep c)) (columns f) =
           map (\<lambda>(n, c). (n, map (nth c) ?K)) (columns f)"
  proof (rule map_cong[OF refl])
    fix x assume x: "x \<in> set (columns f)"
    obtain n c where nc: "x = (n, c)" by (cases x)
    with x wf have "length c = length (index f)" by (simp add: wf_set_column_length)
    with l nc show "(case x of (n, c) \<Rightarrow> (n, mask_rows keep c)) =
                    (case x of (n, c) \<Rightarrow> (n, map (nth c) ?K))"
      by (simp add: mask_rows_nth)
  qed
  have "rows (getitem_mask f keep) =
        map (\<lambda>j. row_at f (?K ! j)) [0..<length ?K]"
    unfolding rows_def getitem_mask_def i c
    by (simp add: row_at_def o_def case_prod_unfold)
  also have "\<dots> = map (row_at f) ?K"
    by (simp add: map_nth flip: map_map[unfolded o_def])
  finally show ?thesis .
qed

lemma email_column:
  "''Email'' \<in> set (map fst (columns df)) \<Longrightarrow> \<exists>emails. map_of (columns df) ''Email'' = Some emails"
  by (metis domD dom_map_of_conv_image_fst set_map)

lemma outcome_row_at:
  "outcome (row_at f i) = map_option (\<lambda>c. c ! i) (map_of (columns f) ''Email Status'')"
  by (simp add: outcome_def row_at_def map_of_map)

lemma rows_filter_valid:
  assumes wf: "wf_frame f" and s: "map_of (columns f) ''Email Status'' = Some sts"
  shows "rows (getitem_mask f (map (\<lambda>v. v = PyStr ''valid'') sts)) =
         filter (\<lambda>r. outcome r = Some (PyStr ''valid'')) (rows f)"
proof -
  let ?keep = "map (\<lambda>v. v = PyStr ''valid'') sts"
  have l: "length sts = length (index f)" using wf s by (rule wf_column_length)
  have "filter (\<lambda>r. outcome r = Some (PyStr ''valid'')) (rows f) =
        map (row_at f) (filter (\<lambda>i. outcome (row_at f i) = Some (PyStr ''valid'')) [0..<length (index f)])"
    by (simp add: rows_def filter_map o_def)
  also have "filter (\<lambda>i. outcome (row_at f i) = Some (PyStr ''valid'')) [0..<length (index f)] =
             filter (nth ?keep) [0..<length (index f)]"
    by (rule filter_cong[OF refl]) (simp add: outcome_row_at s l)
  finally show ?thesis using rows_getitem_mask[OF wf, of ?keep] l by simp
qed

text \<open>
  Claim C2. For a table with the Email column, the call returns; the rows of the returned
  table are exactly the rows of the annotated table whose outcome is \<open>'valid'\<close>, in order; the
  annotated table has the row labels of the input, and the output has no more rows than
  the input.
\<close>

theorem verify_emails_filter:
  assumes "wf_frame df" and "''Email'' \<in> set (map fst (columns df))"
  shows "\<exists>df' out emails. verify_emails df key post = Inr (df', out) \<and>
           rows out = filter (\<lambda>r. outcome r = Some (PyStr ''valid'')) (rows df') \<and>
           map fst (rows df') = index df \<and>
           map_of (columns df) ''Email'' = Some emails \<and>
           (\<forall>i<length (index df).
              outcome (rows df' ! i) = Some (check_one (post key (emails ! i) i))) \<and>
           length (rows out) \<le> length (rows df)"
proof -
  from email_column[OF assms(2)] obtain emails
    where e: "map_of (columns df) ''Email'' = Some emails" ..
  let ?sts = "status_loop post key 0 emails"
  let ?df' = "df\<lparr>columns := AList.update ''Email Status'' ?sts (columns df)\<rparr>"
  let ?out = "getitem_mask ?df' (map (\<lambda>v. v = PyStr ''valid'') ?sts)"
  have r: "verify_emails df key post = Inr (?df', ?out)"
    using assms(1) e by (rule verify_emails_result)
  have l: "length ?sts = length (index df)"
    using wf_column_length[OF assms(1) e] by (simp add: length_status_loop)
  have wf': "wf_frame ?df'" using assms(1) l by (rule wf_update)
  have s: "map_of (columns ?df') ''Email Status'' = Some ?sts"
    by (simp add: update_conv')
  have f: "rows ?out = filter (\<lambda>r. outcome r = Some (PyStr ''valid'')) (rows ?df')"
    using wf' s by (rule rows_filter_valid)
  have i: "map fst (rows ?df') = index df"
    by (simp add: rows_def row_at_def o_def map_nth)
  have "length (rows ?out) \<le> length (rows ?df')" unfolding f by simp
  then have n: "length (rows ?out) \<le> length (rows df)" by (simp add: rows_def)
  have o: "\<forall>i<length (index df).
              outcome (rows ?df' ! i) = Some (check_one (post key (emails ! i) i))"
    using l by (simp add: rows_def outcome_row_at update_conv' nth_status_loop length_status_loop)
  from r f i e o n show ?thesis by blast
qed

theorem verify_emails_filter_witness:
  "verify_emails
     \<lparr>index = [0, 1, 2],
      columns = [(''Email'', [PyStr ''a@x.org'', PyStr ''b@x.org'', PyStr ''c@x.org'']),
                 (''Name'', [PyStr ''Ann'', PyStr ''Bob'', PyStr ''Cy''])]\<rparr>
     ''key''
     (\<lambda>k e i. if e = PyStr ''b@x.org'' then Inl RequestException
               else Inr (Response 200 (Some (PyDict [(''result'', PyStr ''valid'')]))))
   = Inr (\<lparr>index = [0, 1, 2],
           columns = [(''Email'', [PyStr ''a@x.org'', PyStr ''b@x.org'', PyStr ''c@x.org'']),
                      (''Name'', [PyStr ''Ann'', PyStr ''Bob'', PyStr ''Cy'']),
                      (''Email Status'', [PyStr ''valid'', PyStr ''error'', PyStr ''valid''])]\<rparr>,
          \<lparr>index = [0, 2],
           columns = [(''Email'', [PyStr ''a@x.org'', PyStr ''c@x.org'']),
                      (''Name'', [PyStr ''Ann'', PyStr ''Cy'']),
                      (''Email Status'', [PyStr ''valid'', PyStr ''valid''])]\<rparr>)
   \<and> (\<exists>df' out. verify_emails
     \<lparr>index = [0, 1, 2],
      columns = [(''Email'', [PyStr ''a@x.org'', PyStr ''b@x.org'', PyStr ''c@x.org'']),
                 (''Name'', [PyStr ''Ann'', PyStr ''Bob'', PyStr ''Cy''])]\<rparr>
     ''key''
     (\<lambda>k e i. if e = PyStr ''b@x.org'' then Inl RequestException
               else Inr (Response 200 (Some (PyDict [(''result'', PyStr ''valid'')]))))
       = Inr (df', out) \<and>
       rows out = filter (\<lambda>r. outcome r = Some (PyStr ''valid'')) (rows df') \<and>
       map fst (rows df') = [0, 1, 2])"
proof -
  let ?df = "\<lparr>index = [0, 1, 2],
      columns = [(''Email'', [PyStr ''a@x.org'', PyStr ''b@x.org'', PyStr ''c@x.org'']),
                 (''Name'', [PyStr ''Ann'', PyStr ''Bob'', PyStr ''Cy''])]\<rparr>"
  have w: "wf_frame ?df" by (simp add: wf_frame_def)
  have m: "''Email'' \<in> set (map fst (columns ?df))" by simp
  have v: "verify_emails ?df ''key''
     (\<lambda>k e i. if e = PyStr ''b@x.org'' then Inl RequestException
               else Inr (Response 200 (Some (PyDict [(''result'', PyStr ''valid'')]))))
   = Inr (\<lparr>index = [0, 1, 2],
           columns = [(''Email'', [PyStr ''a@x.org'', PyStr ''b@x.org'', PyStr ''c@x.org'']),
                      (''Name'', [PyStr ''Ann'', PyStr ''Bob'', PyStr ''Cy'']),
                      (''Email Status'', [PyStr ''valid'', PyStr ''error'', PyStr ''valid''])]\<rparr>,
          \<lparr>index = [0, 2],
           columns = [(''Email'', [PyStr ''a@x.org'', PyStr ''c@x.org'']),
                      (''Name'', [PyStr ''Ann'', PyStr ''Cy'']),
                      (''Email Status'', [PyStr ''valid'', PyStr ''valid''])]\<rparr>)"
    by (simp add: verify_emails_def getitem_def set_list_def getitem_mask_def mask_rows_def
          check_one_def try_check_def response_json_def Let_def)
  from verify_emails_filter[OF w m, of "''key''"
     "\<lambda>k e i. if e = PyStr ''b@x.org'' then Inl RequestException
               else Inr (Response 200 (Some (PyDict [(''result'', PyStr ''valid'')])))"] v
  show ?thesis by simp
qed

text \<open>
  Claim C8. When the table has no Email column the call returns the table it was given,
  and the caller's table is unchanged: same rows, same row count.
\<close>

theorem verify_emails_noop:
  assumes "''Email'' \<notin> set (map fst (columns df))"
  shows "verify_emails df key post = Inr (df, df)"
  using assms by (simp add: verify_emails_def)

theorem verify_emails_noop_witness:
  "verify_emails \<lparr>index = [0, 1], columns = [(''Name'', [PyStr ''Ann'', PyNone])]\<rparr> ''key''
     (\<lambda>k e i. Inl RequestException)
   = Inr (\<lparr>index = [0, 1], columns = [(''Name'', [PyStr ''Ann'', PyNone])]\<rparr>,
          \<lparr>index = [0, 1], columns = [(''Name'', [PyStr ''Ann'', PyNone])]\<rparr>)"
  using verify_emails_noop[of "\<lparr>index = [0, 1], columns = [(''Name'', [PyStr ''Ann'', PyNone])]\<rparr>"
      "''key''" "\<lambda>k e i. Inl RequestException"]
  by simp

text \<open>
  A response without a \<open>result\<close> field has the outcome \<open>'invalid'\<close>, and a response with
  status 500 whose body carries \<open>result = 'valid'\<close> has the outcome \<open>'valid'\<close>: neither is
  \<open>'error'\<close>.
\<close>

theorem check_one_not_error_counterexample:
  "check_one (Inr (Response 200 (Some (PyDict [(''status'', PyStr ''auth_failure'')]))))
     = PyStr ''invalid''
   \<and> check_one (Inr (Response 200 (Some (PyDict [(''status'', PyStr ''auth_failure'')]))))
     \<noteq> PyStr ''error''
   \<and> check_one (Inr (Response 500 (Some (PyDict [(''result'', PyStr ''valid'')]))))
     = PyStr ''valid''
   \<and> check_one (Inr (Response 200 (Some (PyDict [(''result'', PyInt 7)])))) = PyInt 7"
  by (simp add: check_one_def try_check_def response_json_def)

text \<open>
  Claim C1, as amended. A call that raises, a body that is not JSON and a JSON body that is
  not an object all give the outcome \<open>'error'\<close>. A JSON object gives the value of its
  \<open>result\<close> field whatever that value and whatever the status code, and \<open>'invalid'\<close> when
  the field is missing. On every well-formed table the Validator returns, and the status
  of each row is the outcome of that row's call.
\<close>

theorem verify_emails_fail_open:
  "check_one (Inl e) = PyStr ''error''
   \<and> check_one (Inr (Response c None)) = PyStr ''error''
   \<and> ((\<forall>d. j \<noteq> PyDict d) \<longrightarrow> check_one (Inr (Response c (Some j))) = PyStr ''error'')
   \<and> check_one (Inr (Response c (Some (PyDict d)))) =
        (case map_of d ''result'' of None \<Rightarrow> PyStr ''invalid'' | Some v \<Rightarrow> v)
   \<and> (wf_frame df \<longrightarrow> (\<exists>r. verify_emails df key post = Inr r))
   \<and> (wf_frame df \<longrightarrow> map_of (columns df) ''Email'' = Some emails \<longrightarrow>
        (\<exists>df' out sts. verify_emails df key post = Inr (df', out) \<and>
           map_of (columns df') ''Email Status'' = Some sts \<and> length sts = length emails \<and>
           (\<forall>i<length emails. sts ! i = check_one (post key (emails ! i) i))))"
proof (intro conjI impI)
  show "check_one (Inl e) = PyStr ''error''"
    by (simp add: check_one_def try_check_def)
  show "check_one (Inr (Response c None)) = PyStr ''error''"
    by (simp add: check_one_def try_check_def response_json_def)
  show "check_one (Inr (Response c (Some (PyDict d)))) =
        (case map_of d ''result'' of None \<Rightarrow> PyStr ''invalid'' | Some v \<Rightarrow> v)"
    by (simp add: check_one_def try_check_def response_json_def)
next
  assume "\<forall>d. j \<noteq> PyDict d"
  then have "py_get j ''result'' (PyStr ''invalid'') = Inl AttributeError"
    by (cases j) auto
  then show "check_one (Inr (Response c (Some j))) = PyStr ''error''"
    by (simp add: check_one_def try_check_def response_json_def)
next
  assume wf: "wf_frame df"
  show "\<exists>r. verify_emails df key post = Inr r"
  proof (cases "''Email'' \<in> set (map fst (columns df))")
    case True
    from email_column[OF True] obtain es where "map_of (columns df) ''Email'' = Some es" ..
    from verify_emails_result[OF wf this] show ?thesis by blast
  next
    case False
    then show ?thesis by (simp add: verify_emails_def)
  qed
next
  assume wf: "wf_frame df" and e: "map_of (columns df) ''Email'' = Some emails"
  let ?sts = "status_loop post key 0 emails"
  have "map_of (AList.update ''Email Status'' ?sts (columns df)) ''Email Status'' = Some ?sts"
    by (simp add: update_conv')
  moreover have "\<forall>i<length emails. ?sts ! i = check_one (post key (emails ! i) i)"
    by (simp add: nth_status_loop)
  ultimately show "\<exists>df' out sts. verify_emails df key post = Inr (df', out) \<and>
           map_of (columns df') ''Email Status'' = Some sts \<and> length sts = length emails \<and>
           (\<forall>i<length emails. sts ! i = check_one (post key (emails ! i) i))"
    using verify_emails_result[OF wf e, of key post] length_status_loop[of post key 0 emails]
    by auto
qed

theorem verify_emails_fail_open_witness:
  "check_one (Inr (Response 200 (Some (PyList [])))) = PyStr ''error''
   \<and> (\<exists>r. verify_emails \<lparr>index = [0], columns = [(''Email'', [PyStr ''a@x.org''])]\<rparr> ''key''
            (\<lambda>k e i. Inl RequestException) = Inr r)
   \<and> (\<exists>df' out sts. verify_emails \<lparr>index = [0], columns = [(''Email'', [PyStr ''a@x.org''])]\<rparr> ''key''
            (\<lambda>k e i. Inl RequestException) = Inr (df', out) \<and>
           map_of (columns df') ''Email Status'' = Some sts \<and> length sts = length [PyStr ''a@x.org''] \<and>
           (\<forall>i<length [PyStr ''a@x.org'']. sts ! i = check_one (Inl RequestException)))"
proof -
  let ?df = "\<lparr>index = [0], columns = [(''Email'', [PyStr ''a@x.org''])]\<rparr>"
  have w: "wf_frame ?df" by (simp add: wf_frame_def)
  have e: "map_of (columns ?df) ''Email'' = Some [PyStr ''a@x.org'']" by simp
  have j: "\<forall>d. PyList [] \<noteq> PyDict d" by simp
  note t = verify_emails_fail_open[of RequestException 200 "PyList []" "[]" ?df "''key''"
      "\<lambda>k e i. Inl RequestException" "[PyStr ''a@x.org'']"]
  from t j have a: "check_one (Inr (Response 200 (Some (PyList [])))) = PyStr ''error''"
    by blast
  from t w have b: "\<exists>r. verify_emails ?df ''key'' (\<lambda>k e i. Inl RequestException) = Inr r"
    by blast
  from t w e have c: "\<exists>df' out sts. verify_emails ?df ''key''
            (\<lambda>k e i. Inl RequestException) = Inr (df', out) \<and>
           map_of (columns df') ''Email Status'' = Some sts \<and> length sts = length [PyStr ''a@x.org''] \<and>
           (\<forall>i<length [PyStr ''a@x.org'']. sts ! i = check_one (Inl RequestException))"
    by blast
  from a b c show ?thesis by blast
qed

lemma map_of_Some_key: "map_of al k = Some v \<Longrightarrow> k \<in> set (map fst al)"
  by (auto dest!: map_of_SomeD intro: rev_image_eqI)

lemma names_getitem_mask: "map fst (columns (getitem_mask f keep)) = map fst (columns f)"
  by (auto simp: getitem_mask_def)

text \<open>
  A projected field that is itself named \<open>Email Status\<close> is overwritten by the call: here its
  values \<open>'new'\<close> and \<open>'old'\<close> become the outcomes.
\<close>

theorem verify_emails_overwrites_counterexample:
  "verify_emails
     \<lparr>index = [0, 1],
      columns = [(''Email'', [PyStr ''a@x.org'', PyStr ''b@x.org'']),
                 (''Email Status'', [PyStr ''new'', PyStr ''old''])]\<rparr>
     ''key''
     (\<lambda>k e i. Inr (Response 200 (Some (PyDict [(''result'', PyStr ''valid'')]))))
   = Inr (\<lparr>index = [0, 1],
           columns = [(''Email'', [PyStr ''a@x.org'', PyStr ''b@x.org'']),
                      (''Email Status'', [PyStr ''valid'', PyStr ''valid''])]\<rparr>,
          \<lparr>index = [0, 1],
           columns = [(''Email'', [PyStr ''a@x.org'', PyStr ''b@x.org'']),
                      (''Email Status'', [PyStr ''valid'', PyStr ''valid''])]\<rparr>)"
  by (simp add: verify_emails_def getitem_def set_list_def getitem_mask_def mask_rows_def
        check_one_def try_check_def response_json_def Let_def)

text \<open>
  Claim C10, as amended. For a table with the Email column, the call sets the column
  \<open>Email Status\<close> of the caller's table to the rows' outcomes: appended as the last column
  when the table has no column of that name, replacing it otherwise. The row labels and
  every column of another name are unchanged, and the returned table has the same columns
  as the caller's table after the call, \<open>Email Status\<close> included.
\<close>

theorem verify_emails_annotates:
  assumes "wf_frame df" and "map_of (columns df) ''Email'' = Some emails"
  shows "\<exists>df' out sts. verify_emails df key post = Inr (df', out) \<and>
           index df' = index df \<and>
           columns df' = AList.update ''Email Status'' sts (columns df) \<and>
           length sts = length (index df) \<and>
           (\<forall>i<length (index df). sts ! i = check_one (post key (emails ! i) i)) \<and>
           map_of (columns df') ''Email Status'' = Some sts \<and>
           (\<forall>n. n \<noteq> ''Email Status'' \<longrightarrow> map_of (columns df') n = map_of (columns df) n) \<and>
           (''Email Status'' \<notin> set (map fst (columns df)) \<longrightarrow>
              map fst (columns df') = map fst (columns df) @ [''Email Status'']) \<and>
           map fst (columns out) = map fst (columns df') \<and>
           ''Email Status'' \<in> set (map fst (columns out))"
proof -
  let ?sts = "status_loop post key 0 emails"
  let ?df' = "df\<lparr>columns := AList.update ''Email Status'' ?sts (columns df)\<rparr>"
  let ?out = "getitem_mask ?df' (map (\<lambda>v. v = PyStr ''valid'') ?sts)"
  have r: "verify_emails df key post = Inr (?df', ?out)"
    using assms by (rule verify_emails_result)
  have l: "length ?sts = length (index df)"
    using wf_column_length[OF assms] by (simp add: length_status_loop)
  have le: "length emails = length (index df)"
    using assms by (rule wf_column_length)
  have a: "index ?df' = index df" by simp
  have b: "columns ?df' = AList.update ''Email Status'' ?sts (columns df)" by simp
  have c: "\<forall>i<length (index df). ?sts ! i = check_one (post key (emails ! i) i)"
    using le by (simp add: nth_status_loop)
  have d: "map_of (columns ?df') ''Email Status'' = Some ?sts"
    by (simp add: update_conv')
  have e: "\<forall>n. n \<noteq> ''Email Status'' \<longrightarrow> map_of (columns ?df') n = map_of (columns df) n"
    by (simp add: update_conv')
  have f: "''Email Status'' \<notin> set (map fst (columns df)) \<longrightarrow>
              map fst (columns ?df') = map fst (columns df) @ [''Email Status'']"
    by (simp add: update_keys)
  have g: "map fst (columns ?out) = map fst (columns ?df')"
    by (rule names_getitem_mask)
  have "''Email Status'' \<in> set (map fst (columns ?df'))"
    using d by (rule map_of_Some_key)
  with g have h: "''Email Status'' \<in> set (map fst (columns ?out))" by simp
  show ?thesis
    by (intro exI[of _ ?df'] exI[of _ ?out] exI[of _ ?sts] conjI r a b l c d e f g h)
qed

theorem verify_emails_annotates_witness:
  "\<exists>df' out sts. verify_emails
       \<lparr>index = [0, 1], columns = [(''Email'', [PyStr ''a@x.org'', PyNone]),
                                  (''Name'', [PyStr ''Ann'', PyStr ''Bob''])]\<rparr> ''key''
       (\<lambda>k e i. if e = PyNone then Inr (Response 400 None)
                 else Inr (Response 200 (Some (PyDict [(''result'', PyStr ''valid'')]))))
       = Inr (df', out) \<and>
     index df' = [0, 1] \<and>
     map_of (columns df') ''Email Status'' = Some sts \<and>
     sts = [PyStr ''valid'', PyStr ''error''] \<and>
     map_of (columns df') ''Name'' = Some [PyStr ''Ann'', PyStr ''Bob''] \<and>
     map fst (columns df') = [''Email'', ''Name'', ''Email Status''] \<and>
     ''Email Status'' \<in> set (map fst (columns out))"
proof -
  let ?df = "\<lparr>index = [0, 1], columns = [(''Email'', [PyStr ''a@x.org'', PyNone]),
                                  (''Name'', [PyStr ''Ann'', PyStr ''Bob''])]\<rparr>"
  let ?post = "\<lambda>(k::string) e (i::nat). if e = PyNone then Inr (Response 400 None)
                 else Inr (Response 200 (Some (PyDict [(''result'', PyStr ''valid'')])))"
  have w: "wf_frame ?df" by (simp add: wf_frame_def)
  have e: "map_of (columns ?df) ''Email'' = Some [PyStr ''a@x.org'', PyNone]" by simp
  from verify_emails_annotates[OF w e, of "''key''" ?post]
  obtain df' out sts where
    r: "verify_emails ?df ''key'' ?post = Inr (df', out)"
    and a: "index df' = index ?df"
    and l: "length sts = length (index ?df)"
    and c: "\<forall>i<length (index ?df). sts ! i = check_one (?post ''key'' ([PyStr ''a@x.org'', PyNone] ! i) i)"
    and d: "map_of (columns df') ''Email Status'' = Some sts"
    and n: "\<forall>n. n \<noteq> ''Email Status'' \<longrightarrow> map_of (columns df') n = map_of (columns ?df) n"
    and f: "''Email Status'' \<notin> set (map fst (columns ?df)) \<longrightarrow>
              map fst (columns df') = map fst (columns ?df) @ [''Email Status'']"
    and h: "''Email Status'' \<in> set (map fst (columns out))"
    by (elim exE conjE)
  from a have a': "index df' = [0, 1]" by simp
  from c have "sts ! 0 = PyStr ''valid''" "sts ! 1 = PyStr ''error''"
    by (simp_all add: check_one_def try_check_def response_json_def)
  with l have s: "sts = [PyStr ''valid'', PyStr ''error'']"
    by (simp add: list_eq_iff_nth_eq less_Suc_eq)
  from n have n': "map_of (columns df') ''Name'' = Some [PyStr ''Ann'', PyStr ''Bob'']" by simp
  from f have f': "map fst (columns df') = [''Email'', ''Name'', ''Email Status'']" by simp
  show ?thesis
    by (intro exI[of _ df'] exI[of _ out] exI[of _ sts] conjI r a' d s n' f' h)
qed

section \<open>Properties of the mapping state\<close>

lemma index_of_less: "x \<in> set xs \<Longrightarrow> index_of xs x < length xs"
  by (induction xs) auto

lemma default_index_less:
  "source_options \<noteq> [] \<Longrightarrow> default_index source_options cur < length source_options"
  by (auto simp: default_index_def index_of_less split: option.splits)

lemma selectbox_member:
  "idx < length source_options \<Longrightarrow> selectbox source_options idx pick \<in> set source_options"
  by (auto simp: selectbox_def split: option.splits)

lemma select_source_cases:
  "select_source cols picks t m used = ignore \<or>
   (select_source cols picks t m used \<in> set cols \<and>
    (select_source cols picks t m used \<notin> set used \<or>
     Some (select_source cols picks t m used) = mappings_get m t))"
proof -
  define P where "P = (\<lambda>c. c \<notin> set used \<or> Some c = mappings_get m t)"
  define opts where "opts = ignore # sort (filter P cols)"
  have e: "select_source cols picks t m used =
           selectbox opts (default_index opts (mappings_get m t)) (picks t)"
    by (simp only: select_source_def Let_def opts_def P_def)
  have "opts \<noteq> []" by (simp add: opts_def)
  then have "default_index opts (mappings_get m t) < length opts"
    by (rule default_index_less)
  then have "select_source cols picks t m used \<in> set opts"
    unfolding e by (rule selectbox_member)
  then show ?thesis by (auto simp: opts_def P_def)
qed

lemma mappings_get_Some: "mappings_get m t = Some s \<longleftrightarrow> map_of m t = Some (Some s)"
  by (auto simp: mappings_get_def split: option.splits)

lemma bound_clear:
  "map_of (AList.update t None m) t1 = Some (Some s) \<Longrightarrow> map_of m t1 = Some (Some s)"
  by (simp add: update_conv' split: if_splits)

lemma bound_assign:
  "map_of (AList.update t (Some c) m) t1 = Some (Some s) \<Longrightarrow>
   (t1 = t \<and> s = c) \<or> (t1 \<noteq> t \<and> map_of m t1 = Some (Some s))"
  by (simp add: update_conv' split: if_splits)

lemma unique_sourcesI:
  "(\<And>t1 t2 s. map_of m t1 = Some (Some s) \<Longrightarrow> map_of m t2 = Some (Some s) \<Longrightarrow>
      s \<noteq> [] \<Longrightarrow> s \<noteq> ignore \<Longrightarrow> t1 = t2) \<Longrightarrow> unique_sources m"
  unfolding unique_sources_def by blast

lemma unique_sourcesD:
  "unique_sources m \<Longrightarrow> map_of m t1 = Some (Some s) \<Longrightarrow> map_of m t2 = Some (Some s) \<Longrightarrow>
      s \<noteq> [] \<Longrightarrow> s \<noteq> ignore \<Longrightarrow> t1 = t2"
  unfolding unique_sources_def by blast

lemma coveredI:
  "(\<And>t s. map_of m t = Some (Some s) \<Longrightarrow> s \<noteq> [] \<Longrightarrow> s \<noteq> ignore \<Longrightarrow> s \<in> set used)
   \<Longrightarrow> covered m used"
  unfolding covered_def by blast

lemma coveredD:
  "covered m used \<Longrightarrow> map_of m t = Some (Some s) \<Longrightarrow> s \<noteq> [] \<Longrightarrow> s \<noteq> ignore \<Longrightarrow>
   s \<in> set used"
  unfolding covered_def by blast

lemma unique_sources_clear:
  assumes "unique_sources m"
  shows "unique_sources (AList.update t None m)"
proof (rule unique_sourcesI)
  fix t1 t2 s
  assume "map_of (AList.update t None m) t1 = Some (Some s)"
    and "map_of (AList.update t None m) t2 = Some (Some s)"
    and n: "s \<noteq> []" "s \<noteq> ignore"
  then have a: "map_of m t1 = Some (Some s)" "map_of m t2 = Some (Some s)"
    by (auto dest: bound_clear)
  show "t1 = t2" by (rule unique_sourcesD[OF assms a n])
qed

lemma covered_clear:
  assumes "covered m used"
  shows "covered (AList.update t None m) used"
proof (rule coveredI)
  fix t1 s
  assume "map_of (AList.update t None m) t1 = Some (Some s)" and n: "s \<noteq> []" "s \<noteq> ignore"
  then have a: "map_of m t1 = Some (Some s)" by (auto dest: bound_clear)
  show "s \<in> set used" by (rule coveredD[OF assms a n])
qed

lemma covered_mono: "covered m used \<Longrightarrow> set used \<subseteq> set used' \<Longrightarrow> covered m used'"
  unfolding covered_def by blast

lemma unique_sources_assign:
  assumes u: "unique_sources m" and c: "covered m used"
    and s: "s \<notin> set used \<or> Some s = mappings_get m t"
  shows "unique_sources (AList.update t (Some s) m)"
proof (rule unique_sourcesI)
  fix t1 t2 x
  assume b1: "map_of (AList.update t (Some s) m) t1 = Some (Some x)"
    and b2: "map_of (AList.update t (Some s) m) t2 = Some (Some x)"
    and n: "x \<noteq> []" "x \<noteq> ignore"
  have key: "t' = t" if "map_of m t' = Some (Some s)" "s \<noteq> []" "s \<noteq> ignore" for t'
  proof -
    have "s \<in> set used" by (rule coveredD[OF c that])
    with s have "mappings_get m t = Some s" by simp
    then have "map_of m t = Some (Some s)" by (simp only: mappings_get_Some)
    from unique_sourcesD[OF u that(1) this that(2,3)] show ?thesis .
  qed
  from bound_assign[OF b1] bound_assign[OF b2]
  consider "t1 = t" "t2 = t"
    | "t1 = t" "x = s" "t2 \<noteq> t" "map_of m t2 = Some (Some x)"
    | "t2 = t" "x = s" "t1 \<noteq> t" "map_of m t1 = Some (Some x)"
    | "map_of m t1 = Some (Some x)" "map_of m t2 = Some (Some x)"
    by blast
  then show "t1 = t2"
  proof cases
    case 1 then show ?thesis by simp
  next
    case 2
    with key[of t2] n show ?thesis by simp
  next
    case 3
    with key[of t1] n show ?thesis by simp
  next
    case 4
    show ?thesis by (rule unique_sourcesD[OF u 4 n])
  qed
qed

lemma covered_assign:
  assumes "covered m used" and "s \<in> set used'" and "set used \<subseteq> set used'"
  shows "covered (AList.update t (Some s) m) used'"
proof (rule coveredI)
  fix t1 x
  assume b: "map_of (AList.update t (Some s) m) t1 = Some (Some x)" and n: "x \<noteq> []" "x \<noteq> ignore"
  from bound_assign[OF b] show "x \<in> set used'"
  proof
    assume "t1 = t \<and> x = s" with assms(2) show ?thesis by simp
  next
    assume "t1 \<noteq> t \<and> map_of m t1 = Some (Some x)"
    then have a: "map_of m t1 = Some (Some x)" by simp
    have "x \<in> set used" by (rule coveredD[OF assms(1) a n])
    with assms(3) show ?thesis by blast
  qed
qed

lemma assign_selected_invariant:
  assumes u: "unique_sources m" and c: "covered m used"
    and s: "s = ignore \<or> s \<notin> set used \<or> Some s = mappings_get m t"
  shows "unique_sources (fst (assign_selected t s (m, used))) \<and>
         covered (fst (assign_selected t s (m, used))) (snd (assign_selected t s (m, used)))"
proof (cases "s = ignore")
  case True
  then have "assign_selected t s (m, used) = (AList.update t None m, used)"
    by (simp add: assign_selected_def)
  then show ?thesis using unique_sources_clear[OF u] covered_clear[OF c] by simp
next
  case False
  define used1 where "used1 = (if s \<notin> set used then used @ [s] else used)"
  from False have e: "assign_selected t s (m, used) = (AList.update t (Some s) m, used1)"
    by (simp add: assign_selected_def used1_def)
  from False s have "s \<notin> set used \<or> Some s = mappings_get m t" by simp
  then have a: "unique_sources (AList.update t (Some s) m)"
    by (rule unique_sources_assign[OF u c])
  have "s \<in> set used1" "set used \<subseteq> set used1" by (auto simp: used1_def)
  then have b: "covered (AList.update t (Some s) m) used1"
    by (rule covered_assign[OF c])
  from a b show ?thesis by (simp add: e)
qed

lemma mapping_loop_invariant:
  "unique_sources (fst st) \<Longrightarrow> covered (fst st) (snd st) \<Longrightarrow>
   unique_sources (fst (mapping_loop cols picks clicked ts st))"
proof (induction ts arbitrary: st)
  case Nil then show ?case by simp
next
  case (Cons t ts)
  define st1 where
    "st1 = assign_selected t (select_source cols picks t (fst st) (snd st)) st"
  have "unique_sources (fst st1) \<and> covered (fst st1) (snd st1)"
    using assign_selected_invariant[OF Cons.prems, of "select_source cols picks t (fst st) (snd st)" t]
      select_source_cases[of cols picks t "fst st" "snd st"]
    unfolding st1_def by auto
  then have u1: "unique_sources (fst st1)" and c1: "covered (fst st1) (snd st1)" by blast+
  have step: "mapping_loop cols picks clicked (t # ts) st =
        (if truthy (mappings_get (fst st1) t) \<and> clicked = Some t
         then (AList.update t None (fst st1), snd st1)
         else mapping_loop cols picks clicked ts st1)"
    by (simp only: mapping_loop.simps Let_def st1_def)
  show ?case
    unfolding step using Cons.IH[OF u1 c1] unique_sources_clear[OF u1] by simp
qed

lemma covered_used_sources_of: "covered m (used_sources_of m)"
  unfolding covered_def used_sources_of_def
proof (intro allI impI)
  fix t s assume a: "map_of m t = Some (Some s) \<and> s \<noteq> [] \<and> s \<noteq> ignore"
  then have "(t, Some s) \<in> set m" by (auto dest: map_of_SomeD)
  then have "snd (t, Some s) \<in> snd ` set m" by (rule imageI)
  then have "Some s \<in> set (map snd m)" by simp
  with a have "Some s \<in> set (filter (\<lambda>v. truthy v \<and> v \<noteq> Some ignore) (map snd m))"
    by (simp add: truthy_def)
  then have "the (Some s) \<in> the ` set (filter (\<lambda>v. truthy v \<and> v \<noteq> Some ignore) (map snd m))"
    by (rule imageI)
  then show "s \<in> set (map the (filter (\<lambda>v. truthy v \<and> v \<noteq> Some ignore) (map snd m)))"
    by simp
qed

lemma render_preserves:
  "unique_sources m \<Longrightarrow> unique_sources (render_column_mapping cols ts m picks clicked)"
  unfolding render_column_mapping_def
  by (rule mapping_loop_invariant) (simp_all add: covered_used_sources_of)

lemma session_mappings_store:
  "session_mappings (store_mappings st m) =
     (case mappings st of Own old \<Rightarrow> m | Template n \<Rightarrow> m)"
  by (simp add: session_mappings_def store_mappings_def update_conv' split: mappings_ref.splits)

lemma templates_ok_store:
  assumes "templates_ok st" and "unique_sources m"
  shows "templates_ok (store_mappings st m)"
proof (cases "mappings st")
  case (Own old)
  then show ?thesis using assms(1) by (simp add: store_mappings_def templates_ok_def)
next
  case (Template n)
  have "unique_sources x" if "map_of (AList.update n m (templates st)) k = Some x" for k x
  proof (cases "k = n")
    case True with that assms(2) show ?thesis by (simp add: update_conv')
  next
    case False
    with that have "map_of (templates st) k = Some x" by (simp add: update_conv')
    with assms(1) show ?thesis unfolding templates_ok_def by blast
  qed
  then show ?thesis using Template by (simp add: store_mappings_def templates_ok_def)
qed

lemma unique_sources_Nil: "unique_sources []"
  by (simp add: unique_sources_def)

lemma step_invariant:
  assumes t: "templates_ok st" and u: "unique_sources (session_mappings st)"
  shows "templates_ok (step ts st ev) \<and> unique_sources (session_mappings (step ts st ev))"
proof (cases ev)
  case (Render cols picks clicked)
  have r: "unique_sources (render_column_mapping cols ts (session_mappings st) picks clicked)"
    using u by (rule render_preserves)
  have "session_mappings (store_mappings st
          (render_column_mapping cols ts (session_mappings st) picks clicked)) =
        render_column_mapping cols ts (session_mappings st) picks clicked"
    by (simp add: session_mappings_store split: mappings_ref.splits)
  with r templates_ok_store[OF t r] Render show ?thesis by simp
next
  case (Load n)
  show ?thesis
  proof (cases "n \<in> set (map fst (templates st))")
    case True
    have "unique_sources (case map_of (templates st) n of None \<Rightarrow> [] | Some m \<Rightarrow> m)"
      using t unfolding templates_ok_def by (auto simp: unique_sources_Nil split: option.splits)
    with True Load t show ?thesis by (simp add: session_mappings_def templates_ok_def)
  next
    case False
    with Load t u show ?thesis by simp
  qed
next
  case (Save n) with t u show ?thesis by simp
next
  case (Delete n) with t u show ?thesis by simp
qed

lemma run_invariant:
  "templates_ok st \<Longrightarrow> unique_sources (session_mappings st) \<Longrightarrow>
   templates_ok (run ts st events) \<and> unique_sources (session_mappings (run ts st events))"
  unfolding run_def
proof (induction events arbitrary: st)
  case Nil then show ?case by simp
next
  case (Cons ev events)
  from step_invariant[OF Cons.prems, of ts ev]
  have "templates_ok (step ts st ev)" "unique_sources (session_mappings (step ts st ev))"
    by blast+
  from Cons.IH[OF this] show ?case by simp
qed

text \<open>
  Loading a stored template whose dictionary binds one source column to two target fields
  makes that dictionary the active mapping, and the next run of the mapping interface keeps
  both bindings: each target may keep its current source.
\<close>

theorem load_template_counterexample:
  "session_mappings
     (run [''Email'', ''Name'']
        \<lparr>templates = [(''dup'', [(''Email'', Some ''mail''), (''Name'', Some ''mail'')])],
         mappings = Own [], processed_data = None\<rparr>
        [Load ''dup'', Render [''mail''] (\<lambda>t. None) None])
     = [(''Email'', Some ''mail''), (''Name'', Some ''mail'')]
   \<and> \<not> unique_sources [(''Email'', Some ''mail''), (''Name'', Some ''mail'')]"
proof
  show "session_mappings
     (run [''Email'', ''Name'']
        \<lparr>templates = [(''dup'', [(''Email'', Some ''mail''), (''Name'', Some ''mail'')])],
         mappings = Own [], processed_data = None\<rparr>
        [Load ''dup'', Render [''mail''] (\<lambda>t. None) None])
     = [(''Email'', Some ''mail''), (''Name'', Some ''mail'')]"
    by (simp add: run_def session_mappings_def store_mappings_def render_column_mapping_def
          used_sources_of_def select_source_def assign_selected_def selectbox_def
          default_index_def mappings_get_def truthy_def ignore_def Let_def)
next
  show "\<not> unique_sources [(''Email'', Some ''mail''), (''Name'', Some ''mail'')]"
  proof
    assume u: "unique_sources [(''Email'', Some ''mail''), (''Name'', Some ''mail'')]"
    have "''Email'' = ''Name''"
      by (rule unique_sourcesD[OF u, of "''Email''" "''mail''" "''Name''"])
         (simp_all add: ignore_def)
    then show False by simp
  qed
qed

text \<open>
  Claim C3, as amended. If every stored template binds no source column, the ignore entry
  apart, to two distinct target fields, and the active mapping does not either, then after
  any sequence of runs of the mapping interface (with any picks and any clear button
  pressed), template loads, saves and deletions, the active mapping binds no source column
  other than the ignore entry to two distinct target fields, and neither does any template.
\<close>

theorem mapping_unique_sources:
  assumes "templates_ok st" and "unique_sources (session_mappings st)"
  shows "unique_sources (session_mappings (run target_columns st events)) \<and>
         templates_ok (run target_columns st events)"
  using run_invariant[OF assms, of target_columns events] by blast

theorem mapping_unique_sources_witness:
  "unique_sources
     (session_mappings
        (run [''Email'', ''Name'']
           \<lparr>templates = [(''tpl'', [(''Email'', Some ''mail''), (''Name'', Some ''name'')])],
            mappings = Own [], processed_data = None\<rparr>
           [Render [''mail'', ''name''] (\<lambda>t. if t = ''Email'' then Some ''name'' else None) None,
            Load ''tpl'',
            Render [''mail'', ''name'', ''full''] (\<lambda>t. Some ''full'') (Some ''Name'')]))"
proof -
  let ?st = "\<lparr>templates = [(''tpl'', [(''Email'', Some ''mail''), (''Name'', Some ''name'')])],
            mappings = Own [], processed_data = None\<rparr>"
  have u: "unique_sources [(''Email'', Some ''mail''), (''Name'', Some ''name'')]"
    by (rule unique_sourcesI) (auto split: if_splits)
  have t: "templates_ok ?st"
    using u by (auto simp: templates_ok_def split: if_splits)
  have m: "unique_sources (session_mappings ?st)"
    by (simp add: session_mappings_def unique_sources_Nil)
  from mapping_unique_sources[OF t m] show ?thesis by blast
qed

section \<open>Properties of the pipeline\<close>

text \<open>
  Claim C6. With an API key present and verification enabled, the start action does not run
  the Validator: the call made is of the check box's value, it raises \<open>TypeError\<close>, the error
  is shown and no result is stored. Here the mapping is complete and the projection
  succeeds, yet the session never reaches the processed state.
\<close>

theorem start_with_verification_fails:
  "on_start
     \<lparr>templates = [], mappings = Own [(''Email'', Some ''mail'')], processed_data = None\<rparr>
     \<lparr>index = [0], columns = [(''mail'', [PyStr ''a@x.org''])]\<rparr>
     [''Email''] ''key'' True ''leads.csv''
   = (\<lparr>templates = [], mappings = Own [(''Email'', Some ''mail'')], processed_data = None\<rparr>,
      Some TypeError)
   \<and> process_data \<lparr>index = [0], columns = [(''mail'', [PyStr ''a@x.org''])]\<rparr>
        [(''Email'', Some ''mail'')] [''Email'']
     = Inr \<lparr>index = [0], columns = [(''Email'', [PyStr ''a@x.org''])]\<rparr>"
  by (simp add: on_start_def start_processing_def call_local_verify_emails_def
        session_mappings_def process_data_def mappings_get_def truthy_def getitem_def
        set_series_def ensure_valid_index_def reindex_for_setitem_def empty_frame_def Let_def)

lemma start_processing_Inr:
  assumes "start_processing st df ts api_key v fname = Inr st'"
  shows "\<exists>p. process_data df (session_mappings st) ts = Inr p \<and>
             \<not> (api_key \<noteq> [] \<and> v) \<and>
             st' = st\<lparr>processed_data := Some (p, clean_filename fname)\<rparr>"
  using assms
  by (auto simp: start_processing_def call_local_verify_emails_def split: sum.splits if_splits)
































end
